theory Spec2Isabelle
  imports Main "HOL-Library.Multiset"
begin

section \<open>Django structure scanner: the data model\<close>

text \<open>
  The exceptions of Python that the scanner can meet. \<open>PermissionError\<close> is a subclass of
  \<open>OSError\<close> in Python; both are listed because neither is named by an \<open>except\<close> clause of
  the source.
\<close>

datatype py_error =
    SyntaxError
  | UnicodeDecodeError
  | PermissionError
  | OSError
  | AttributeError
  | IndexError
  | TypeError
  | ValueError
  | RecursionError

text \<open>
  An attribute of a Python object: the object has no such attribute (\<open>hasattr\<close> is
  false and reading it raises \<open>AttributeError\<close>), or it has one with a value.
\<close>

datatype 'a attribute = Missing | Has 'a

text \<open>
  The position attributes of a node of Python's \<open>ast\<close> module. The value of an attribute
  is an integer or Python's \<open>None\<close> (the \<open>None\<close> of the option type). A node of a class
  without positions (\<open>Module\<close>, \<open>arguments\<close>) has none of the four attributes. On an
  interpreter older than 3.8 a statement node has \<open>lineno\<close> and \<open>col_offset\<close> only; from
  3.8 on it also has \<open>end_lineno\<close> and \<open>end_col_offset\<close>, which the parser sets to
  integers and which are \<open>None\<close> on a node built without them.
\<close>

record position =
  lineno :: "int option attribute"
  col_offset :: "int option attribute"
  end_lineno :: "int option attribute"
  end_col_offset :: "int option attribute"

text \<open>An \<open>ast.alias\<close>: the \<open>name\<close> and the optional \<open>asname\<close> of one import target.\<close>

record import_alias =
  alias_name :: string
  alias_asname :: "string option"

text \<open>
  The node classes that the scanner tells apart by \<open>isinstance\<close>; every other class of
  node (\<open>Module\<close>, \<open>If\<close>, \<open>arguments\<close>, expressions, ...) is \<open>Other\<close>. \<open>ImportFrom\<close>
  carries \<open>node.module\<close>, which is \<open>None\<close> for \<open>from . import x\<close>.
\<close>

datatype node_kind =
    FunctionDef string
  | AsyncFunctionDef string
  | ClassDef string
  | Import "import_alias list"
  | ImportFrom "string option" "import_alias list"
  | Other

text \<open>
  A syntax tree: a node with its kind, its position and its child nodes in the order in
  which \<open>ast.iter_child_nodes\<close> yields them (for statements, the order of the source
  text).
\<close>

datatype node = Node (kind: node_kind) (pos: position) (iter_child_nodes: "node list")

text \<open>
  The dictionary returned by \<open>get_node_line_numbers\<close>. Each value is what the source
  assigns: an integer, or \<open>None\<close> when it is copied from an attribute whose value is
  \<open>None\<close>.
\<close>

record source_span =
  line_start :: "int option"
  line_end :: "int option"
  col_start :: "int option"
  col_end :: "int option"

text \<open>The dictionary appended to \<open>methods\<close>: keys \<open>name\<close>, \<open>is_async\<close>, \<open>location\<close>.\<close>

record method_record =
  method_name :: string
  method_is_async :: bool
  method_location :: source_span

text \<open>
  The dictionary appended to \<open>nodes\<close>. With \<open>"type": "Class"\<close> it has the keys \<open>name\<close>,
  \<open>location\<close>, \<open>methods\<close>; with \<open>"type": "Function"\<close> it has \<open>name\<close>, \<open>is_async\<close>,
  \<open>location\<close>, \<open>methods\<close>.
\<close>

datatype declaration_record =
    Class string source_span "method_record list"
  | Function string bool source_span "method_record list"

text \<open>
  The dictionary appended to \<open>imports\<close>. \<open>PlainImport module name\<close> is the one with
  \<open>"type": "import"\<close>; \<open>FromImport module name asname\<close> the one with \<open>"type": "importfrom"\<close>.
\<close>

datatype import_record =
    PlainImport string string
  | FromImport string string "string option"

section \<open>Location resolver\<close>

text \<open>\<open>xs[i]\<close> on a Python list: a negative index counts from the end.\<close>

definition py_index :: "'a list \<Rightarrow> int \<Rightarrow> py_error + 'a" where
  "py_index xs i =
     (if 0 \<le> i \<and> i < int (length xs) then Inr (xs ! nat i)
      else if i < 0 \<and> 0 \<le> int (length xs) + i then Inr (xs ! nat (int (length xs) + i))
      else Inl IndexError)"

text \<open>Reading an attribute: \<open>AttributeError\<close> when the object does not have it.\<close>

definition getattr :: "'a attribute \<Rightarrow> py_error + 'a" where
  "getattr a = (case a of Missing \<Rightarrow> Inl AttributeError | Has v \<Rightarrow> Inr v)"

text \<open>
  The body of the \<open>try\<close> block of \<open>get_node_line_numbers\<close>: the three assignments, giving
  \<open>(line_end, col_start, col_end)\<close> (primed below, where the names are those of the
  span's fields) or the exception that ends the block. Each
  conditional expression takes the attribute's value when \<open>hasattr\<close> is true, also when
  that value is \<open>None\<close>. In the last one, \<open>line_end - 1\<close> raises \<open>TypeError\<close> when
  \<open>line_end\<close> is \<open>None\<close>, and the list access raises \<open>IndexError\<close> out of range.
\<close>

definition line_numbers_try ::
  "position \<Rightarrow> string list \<Rightarrow> py_error + (int option \<times> int option \<times> int option)"
where
  "line_numbers_try p source_lines =
     (case (case end_lineno p of Has v \<Rightarrow> Inr v | Missing \<Rightarrow> getattr (lineno p)) of
        Inl err \<Rightarrow> Inl err
      | Inr line_end' \<Rightarrow>
          (let col_start' = (case col_offset p of Has v \<Rightarrow> v | Missing \<Rightarrow> Some 0)
           in case end_col_offset p of
                Has v \<Rightarrow> Inr (line_end', col_start', v)
              | Missing \<Rightarrow>
                  (case line_end' of
                     None \<Rightarrow> Inl TypeError
                   | Some le \<Rightarrow>
                       (case py_index source_lines (le - 1) of
                          Inl err \<Rightarrow> Inl err
                        | Inr l \<Rightarrow> Inr (line_end', col_start', Some (int (length l)))))))"

text \<open>
  \<open>get_node_line_numbers\<close>. The first statement, \<open>line_start = node.lineno\<close>, stands
  before the \<open>try\<close>: its \<open>AttributeError\<close> leaves the function. Inside the \<open>try\<close>,
  \<open>except (AttributeError, IndexError)\<close> replaces the span by the degenerate one; an
  exception of any other class leaves the function.
\<close>

definition get_node_line_numbers :: "node \<Rightarrow> string list \<Rightarrow> py_error + source_span" where
  "get_node_line_numbers n source_lines =
     (case getattr (lineno (pos n)) of
        Inl err \<Rightarrow> Inl err
      | Inr line_start' \<Rightarrow>
          (case line_numbers_try (pos n) source_lines of
             Inr (le, cs, ce) \<Rightarrow>
               Inr \<lparr>line_start = line_start', line_end = le, col_start = cs, col_end = ce\<rparr>
           | Inl err \<Rightarrow>
               if err = AttributeError \<or> err = IndexError
               then Inr \<lparr>line_start = line_start', line_end = line_start',
                         col_start = Some 0, col_end = Some 0\<rparr>
               else Inl err))"

section \<open>Tree traversal\<close>

fun node_count :: "node \<Rightarrow> nat" where
  "node_count (Node k p cs) = Suc (sum_list (map node_count cs))"

text \<open>
  \<open>ast.walk\<close> of the standard library keeps a double-ended queue: it takes the node at
  the front, puts that node's children at the back and yields the node, until the queue
  is empty. \<open>walk_queue todo\<close> is the sequence yielded from the queue \<open>todo\<close>.
\<close>

function walk_queue :: "node list \<Rightarrow> node list" where
  "walk_queue [] = []"
| "walk_queue (n # todo) = n # walk_queue (todo @ iter_child_nodes n)"
  by pat_completeness auto
termination
proof (relation "measure (\<lambda>todo. sum_list (map node_count todo))")
  show "wf (measure (\<lambda>todo. sum_list (map node_count todo)))"
    by simp
next
  fix n :: node and todo :: "node list"
  show "(todo @ iter_child_nodes n, n # todo) \<in> measure (\<lambda>todo. sum_list (map node_count todo))"
    by (cases n) simp
qed

definition walk :: "node \<Rightarrow> node list" where
  "walk n = walk_queue [n]"

section \<open>Declaration extractor\<close>

text \<open>\<open>isinstance(n, (ast.FunctionDef, ast.AsyncFunctionDef))\<close>\<close>

definition is_function_like :: "node \<Rightarrow> bool" where
  "is_function_like n =
     (case kind n of FunctionDef _ \<Rightarrow> True | AsyncFunctionDef _ \<Rightarrow> True | _ \<Rightarrow> False)"

text \<open>\<open>isinstance(n, ast.ClassDef)\<close>\<close>

definition is_class :: "node \<Rightarrow> bool" where
  "is_class n = (case kind n of ClassDef _ \<Rightarrow> True | _ \<Rightarrow> False)"

text \<open>\<open>isinstance(n, ast.AsyncFunctionDef)\<close>\<close>

definition is_async :: "node \<Rightarrow> bool" where
  "is_async n = (case kind n of AsyncFunctionDef _ \<Rightarrow> True | _ \<Rightarrow> False)"

text \<open>
  \<open>n.name\<close>. The source reads it only after the \<open>isinstance\<close> test for the three
  declaration classes, which all have the attribute.
\<close>

definition node_name :: "node \<Rightarrow> string" where
  "node_name n =
     (case kind n of
        FunctionDef s \<Rightarrow> s
      | AsyncFunctionDef s \<Rightarrow> s
      | ClassDef s \<Rightarrow> s
      | _ \<Rightarrow> [])"

text \<open>\<open>source.split('\n')\<close>: one more piece than there are newline characters.\<close>

fun split_newline :: "string \<Rightarrow> string list" where
  "split_newline [] = [[]]"
| "split_newline (c # cs) =
     (if c = CHR 0x0A then [] # split_newline cs
      else (case split_newline cs of
              l # ls \<Rightarrow> (c # l) # ls
            | [] \<Rightarrow> [[c]]))"

text \<open>
  The inner loop \<open>for child_node in ast.walk(node)\<close> over what is left of the walk, with
  the list \<open>methods\<close> built so far. Nodes of \<open>ast\<close> compare by identity; a node that
  passes the \<open>isinstance\<close> test is never the class node, so comparing the values decides
  \<open>child_node != node\<close> the same way.
\<close>

fun methods_loop ::
  "node \<Rightarrow> string list \<Rightarrow> node list \<Rightarrow> method_record list \<Rightarrow> py_error + method_record list"
where
  "methods_loop node source_lines [] methods = Inr methods"
| "methods_loop node source_lines (child_node # rest) methods =
     (if is_function_like child_node \<and> child_node \<noteq> node then
        (case get_node_line_numbers child_node source_lines of
           Inl err \<Rightarrow> Inl err
         | Inr location \<Rightarrow>
             methods_loop node source_lines rest
               (methods @ [\<lparr>method_name = node_name child_node,
                             method_is_async = is_async child_node,
                             method_location = location\<rparr>]))
      else methods_loop node source_lines rest methods)"

text \<open>The outer loop \<open>for node in ast.walk(tree)\<close>, with the list \<open>nodes\<close> built so far.\<close>

fun nodes_loop ::
  "string list \<Rightarrow> node list \<Rightarrow> declaration_record list \<Rightarrow> py_error + declaration_record list"
where
  "nodes_loop source_lines [] nodes = Inr nodes"
| "nodes_loop source_lines (node # rest) nodes =
     (if is_function_like node \<or> is_class node then
        (case get_node_line_numbers node source_lines of
           Inl err \<Rightarrow> Inl err
         | Inr location \<Rightarrow>
             if is_class node then
               (case methods_loop node source_lines (walk node) [] of
                  Inl err \<Rightarrow> Inl err
                | Inr methods \<Rightarrow>
                    nodes_loop source_lines rest
                      (nodes @ [Class (node_name node) location methods]))
             else
               nodes_loop source_lines rest
                 (nodes @ [Function (node_name node) (is_async node) location []]))
      else nodes_loop source_lines rest nodes)"

text \<open>\<open>source.split('\n') if source else []\<close>: \<open>None\<close> and the empty string are both false.\<close>

definition source_lines_of :: "string option \<Rightarrow> string list" where
  "source_lines_of source =
     (case source of
        None \<Rightarrow> []
      | Some s \<Rightarrow> if s \<noteq> [] then split_newline s else [])"

definition extract_functions_classes ::
  "node option \<Rightarrow> string option \<Rightarrow> py_error + declaration_record list"
where
  "extract_functions_classes tree source =
     (case tree of
        None \<Rightarrow> Inr []
      | Some t \<Rightarrow> nodes_loop (source_lines_of source) (walk t) [])"

section \<open>Import extractor\<close>

text \<open>\<open>x or d\<close> for an optional string \<open>x\<close>: \<open>None\<close> and the empty string are both false.\<close>

definition str_or :: "string option \<Rightarrow> string \<Rightarrow> string" where
  "str_or x d = (case x of None \<Rightarrow> d | Some s \<Rightarrow> if s = [] then d else s)"

text \<open>\<open>for name in node.names\<close> of an \<open>ast.Import\<close>.\<close>

fun import_names_loop :: "import_alias list \<Rightarrow> import_record list \<Rightarrow> import_record list" where
  "import_names_loop [] imports = imports"
| "import_names_loop (name # names) imports =
     import_names_loop names
       (imports @ [PlainImport (alias_name name) (str_or (alias_asname name) (alias_name name))])"

text \<open>\<open>for name in node.names\<close> of an \<open>ast.ImportFrom\<close>.\<close>

fun importfrom_names_loop ::
  "string \<Rightarrow> import_alias list \<Rightarrow> import_record list \<Rightarrow> import_record list"
where
  "importfrom_names_loop module [] imports = imports"
| "importfrom_names_loop module (name # names) imports =
     importfrom_names_loop module names
       (imports @ [FromImport module (alias_name name) (alias_asname name)])"

text \<open>\<open>for node in ast.walk(tree)\<close>, with the list \<open>imports\<close> built so far.\<close>

fun imports_loop :: "node list \<Rightarrow> import_record list \<Rightarrow> import_record list" where
  "imports_loop [] imports = imports"
| "imports_loop (node # rest) imports =
     (case kind node of
        Import names \<Rightarrow> imports_loop rest (import_names_loop names imports)
      | ImportFrom module names \<Rightarrow>
          imports_loop rest (importfrom_names_loop (str_or module []) names imports)
      | _ \<Rightarrow> imports_loop rest imports)"

type_synonym path = "string list"

definition find_imports_and_relations ::
  "node option \<Rightarrow> string option \<Rightarrow> path \<Rightarrow> import_record list"
where
  "find_imports_and_relations tree source file_path =
     (case tree of None \<Rightarrow> [] | Some t \<Rightarrow> imports_loop (walk t) [])"

section \<open>Parser adapter\<close>

text \<open>
  A \<open>pathlib\<close> path relative to the working directory (the scanner's entry point builds
  every path from \<open>Path('.')\<close>) is the list of its segments. \<open>str(p)\<close> joins them with the
  separator and \<open>p.name\<close> is the last of them.
\<close>

fun join :: "string \<Rightarrow> string list \<Rightarrow> string" where
  "join sep [] = []"
| "join sep [x] = x"
| "join sep (x # y # ys) = x @ sep @ join sep (y # ys)"

definition path_str :: "path \<Rightarrow> string" where
  "path_str p = (if p = [] then ''.'' else join ''/'' p)"

definition path_name :: "path \<Rightarrow> string" where
  "path_name p = (if p = [] then [] else last p)"

text \<open>\<open>sub in s\<close> on Python strings: \<open>sub\<close> occurs in \<open>s\<close> as a run of adjacent characters.\<close>

fun str_contains :: "string \<Rightarrow> string \<Rightarrow> bool" where
  "str_contains sub [] = (sub = [])"
| "str_contains sub (c # cs) = (take (length sub) (c # cs) = sub \<or> str_contains sub cs)"

text \<open>
  What the scanner takes from outside: the clock, the file system and the parser of the
  standard library. \<open>read_text p\<close> is the outcome of \<open>open(p, "r", encoding="utf-8")\<close>
  followed by \<open>f.read()\<close>; \<open>ast_parse\<close> is \<open>ast.parse\<close>; \<open>rglob_py p\<close> is
  \<open>list(p.rglob("*.py"))\<close>; \<open>resolve p\<close> is \<open>str(p.resolve())\<close>; \<open>open_output f\<close> is the
  exception, if any, of opening \<open>f\<close> for writing.
\<close>

record scan_env =
  now_isoformat :: string
  rglob_py :: "path \<Rightarrow> path list"
  read_text :: "path \<Rightarrow> py_error + string"
  ast_parse :: "string \<Rightarrow> py_error + node"
  resolve :: "path \<Rightarrow> string"
  open_output :: "string \<Rightarrow> py_error option"

text \<open>The body of the \<open>try\<close> block of \<open>parse_code\<close>.\<close>

definition parse_code_try :: "scan_env \<Rightarrow> path \<Rightarrow> py_error + (node \<times> string)" where
  "parse_code_try env file_path =
     (case read_text env file_path of
        Inl err \<Rightarrow> Inl err
      | Inr source \<Rightarrow>
          (case ast_parse env source of
             Inl err \<Rightarrow> Inl err
           | Inr tree \<Rightarrow> Inr (tree, source)))"

text \<open>
  \<open>parse_code\<close>: \<open>except (SyntaxError, UnicodeDecodeError)\<close> gives \<open>(None, None)\<close>; an
  exception of any other class leaves the function.
\<close>

definition parse_code :: "scan_env \<Rightarrow> path \<Rightarrow> py_error + (node option \<times> string option)" where
  "parse_code env file_path =
     (case parse_code_try env file_path of
        Inr (tree, source) \<Rightarrow> Inr (Some tree, Some source)
      | Inl err \<Rightarrow>
          if err = SyntaxError \<or> err = UnicodeDecodeError then Inr (None, None)
          else Inl err)"

section \<open>Project aggregator\<close>

record file_data =
  file_name :: string
  relative_path :: string
  absolute_path :: string
  file_items :: "declaration_record list"
  file_imports :: "import_record list"

record app_data =
  app_name :: string
  app_path_str :: string
  app_files :: "file_data list"

record project_data =
  generated_at :: string
  apps :: "app_data list"

text \<open>
  What a call of \<open>generate_project_structure_json\<close> leaves behind when it returns: the
  value returned (\<open>None\<close> for the bare \<open>return\<close>) and the document written, with the
  name of its file.
\<close>

record run_result =
  returned :: "project_data option"
  written :: "(string \<times> project_data) option"

text \<open>
  \<open>for py_file in py_files\<close>, with \<open>app_data["files"]\<close> built so far. A path relative to
  the working directory is its own \<open>relative_to(Path('.'))\<close>.
\<close>

fun files_loop :: "scan_env \<Rightarrow> path list \<Rightarrow> file_data list \<Rightarrow> py_error + file_data list" where
  "files_loop env [] files = Inr files"
| "files_loop env (py_file # rest) files =
     (if str_contains ''migrations'' (path_str py_file) \<and> path_name py_file \<noteq> ''__init__.py''
      then files_loop env rest files
      else
        (case parse_code env py_file of
           Inl err \<Rightarrow> Inl err
         | Inr (tree, source) \<Rightarrow>
             (case extract_functions_classes tree source of
                Inl err \<Rightarrow> Inl err
              | Inr items \<Rightarrow>
                  files_loop env rest
                    (files @ [\<lparr>file_name = path_name py_file,
                               relative_path = path_str py_file,
                               absolute_path = resolve env py_file,
                               file_items = items,
                               file_imports = find_imports_and_relations tree source py_file\<rparr>]))))"

text \<open>\<open>for app_path in app_paths\<close>, with \<open>project_data["apps"]\<close> built so far.\<close>

fun apps_loop :: "scan_env \<Rightarrow> path list \<Rightarrow> app_data list \<Rightarrow> py_error + app_data list" where
  "apps_loop env [] done = Inr done"
| "apps_loop env (app_path # rest) done =
     (case files_loop env (rglob_py env app_path) [] of
        Inl err \<Rightarrow> Inl err
      | Inr files \<Rightarrow>
          apps_loop env rest
            (done @ [\<lparr>app_name = path_name app_path,
                      app_path_str = path_str app_path,
                      app_files = files\<rparr>]))"

definition generate_project_structure_json ::
  "scan_env \<Rightarrow> path list \<Rightarrow> string \<Rightarrow> py_error + run_result"
where
  "generate_project_structure_json env app_paths output_file =
     (if app_paths = [] then Inr \<lparr>returned = None, written = None\<rparr>
      else
        (case apps_loop env app_paths [] of
           Inl err \<Rightarrow> Inl err
         | Inr scanned \<Rightarrow>
             (let project = \<lparr>generated_at = now_isoformat env, apps = scanned\<rparr>
              in case open_output env output_file of
                   Some err \<Rightarrow> Inl err
                 | None \<Rightarrow>
                     Inr \<lparr>returned = Some project,
                          written = Some (output_file, project)\<rparr>)))"

section \<open>Notions the properties are stated with\<close>

text \<open>The nodes of a tree in the order of the source text: a node, then its children's trees.\<close>

fun preorder :: "node \<Rightarrow> node list" where
  "preorder (Node k p cs) = Node k p cs # concat (map preorder cs)"

text \<open>The nodes of the subtree of \<open>n\<close> other than \<open>n\<close> itself.\<close>

definition descendants :: "node \<Rightarrow> node list" where
  "descendants n = concat (map preorder (iter_child_nodes n))"

text \<open>The nodes at nesting depth \<open>d\<close> below \<open>n\<close>, from left to right.\<close>

fun level :: "nat \<Rightarrow> node \<Rightarrow> node list" where
  "level 0 n = [n]"
| "level (Suc d) n = concat (map (level d) (iter_child_nodes n))"

text \<open>The number of levels of a tree.\<close>

fun levels :: "node \<Rightarrow> nat" where
  "levels (Node k p cs) = Suc (foldr max (map levels cs) 0)"

text \<open>
  A node with a line number as the parser sets it: \<open>lineno\<close> is an integer, and
  \<open>end_lineno\<close> is an integer or missing, not \<open>None\<close>.
\<close>

definition has_line_numbers :: "node \<Rightarrow> bool" where
  "has_line_numbers n =
     (case lineno (pos n) of
        Has (Some l) \<Rightarrow> end_lineno (pos n) \<noteq> Has None
      | _ \<Rightarrow> False)"

text \<open>The span that the location resolver gives a node with line numbers.\<close>

definition span_of :: "string list \<Rightarrow> node \<Rightarrow> source_span" where
  "span_of source_lines n =
     (case get_node_line_numbers n source_lines of
        Inr s \<Rightarrow> s
      | Inl err \<Rightarrow> \<lparr>line_start = None, line_end = None, col_start = None, col_end = None\<rparr>)"

text \<open>
  The invariant of spans in the words of the specification: both lines are there and
  \<open>line_start \<le> line_end\<close>.
\<close>

definition span_ordered :: "source_span \<Rightarrow> bool" where
  "span_ordered s =
     (case line_start s of
        None \<Rightarrow> False
      | Some a \<Rightarrow> (case line_end s of None \<Rightarrow> False | Some b \<Rightarrow> a \<le> b))"

text \<open>The method record of a function-like node.\<close>

definition method_of :: "string list \<Rightarrow> node \<Rightarrow> method_record" where
  "method_of source_lines n =
     \<lparr>method_name = node_name n, method_is_async = is_async n,
      method_location = span_of source_lines n\<rparr>"

text \<open>The nodes that the inner loop of the declaration extractor turns into method records.\<close>

definition method_nodes :: "node \<Rightarrow> node list" where
  "method_nodes c = filter (\<lambda>n. is_function_like n \<and> n \<noteq> c) (walk c)"

text \<open>A declaration node: a function, an async function or a class.\<close>

definition is_declaration :: "node \<Rightarrow> bool" where
  "is_declaration n = (is_function_like n \<or> is_class n)"

text \<open>
  A tree as the parser gives it for a file that parses: every function, async function
  and class node in it has its line numbers.
\<close>

definition parsed :: "node \<Rightarrow> bool" where
  "parsed t = list_all (\<lambda>n. is_declaration n \<longrightarrow> has_line_numbers n) (preorder t)"

text \<open>The declaration record of a declaration node.\<close>

definition declaration_of :: "string list \<Rightarrow> node \<Rightarrow> declaration_record" where
  "declaration_of source_lines n =
     (if is_class n
      then Class (node_name n) (span_of source_lines n)
             (map (method_of source_lines) (method_nodes n))
      else Function (node_name n) (is_async n) (span_of source_lines n) [])"

text \<open>The records of one import statement, one per target.\<close>

definition import_records :: "node \<Rightarrow> import_record list" where
  "import_records n =
     (case kind n of
        Import names \<Rightarrow>
          map (\<lambda>a. PlainImport (alias_name a) (str_or (alias_asname a) (alias_name a))) names
      | ImportFrom module names \<Rightarrow>
          map (\<lambda>a. FromImport (str_or module []) (alias_name a) (alias_asname a)) names
      | _ \<Rightarrow> [])"

text \<open>The import records of a tree in the order of the source text.\<close>

definition source_order_imports :: "node \<Rightarrow> import_record list" where
  "source_order_imports t = concat (map import_records (preorder t))"

text \<open>
  The default filter in the words of the specification: a file is left out when it lies
  under a directory segment named \<open>migrations\<close> and is not the package's \<open>__init__.py\<close>.
\<close>

definition spec_excluded :: "path \<Rightarrow> bool" where
  "spec_excluded p = (''migrations'' \<in> set (butlast p) \<and> path_name p \<noteq> ''__init__.py'')"

text \<open>The filter of the source: the files that \<open>files_loop\<close> does not skip.\<close>

definition passes_filter :: "path \<Rightarrow> bool" where
  "passes_filter p =
     (\<not> (str_contains ''migrations'' (path_str p) \<and> path_name p \<noteq> ''__init__.py''))"

text \<open>What the claim about determinism compares: the declarations and imports of a file record.\<close>

definition record_content :: "file_data \<Rightarrow> declaration_record list \<times> import_record list" where
  "record_content f = (file_items f, file_imports f)"

text \<open>
  The outcome for an empty list of roots in the words of the specification: a project
  model is returned and its \<open>apps\<close> sequence is empty.
\<close>

definition returns_empty_model :: "py_error + run_result \<Rightarrow> bool" where
  "returns_empty_model r =
     (case r of
        Inl err \<Rightarrow> False
      | Inr res \<Rightarrow> (case returned res of None \<Rightarrow> False | Some project \<Rightarrow> apps project = []))"

section \<open>Example inputs\<close>

text \<open>The position of a statement node as the parser sets it from Python 3.8 on.\<close>

definition position_at :: "int \<Rightarrow> int \<Rightarrow> int \<Rightarrow> int \<Rightarrow> position" where
  "position_at l c el ec =
     \<lparr>lineno = Has (Some l), col_offset = Has (Some c),
      end_lineno = Has (Some el), end_col_offset = Has (Some ec)\<rparr>"

text \<open>The position of a statement node as the parser sets it before Python 3.8.\<close>

definition old_position_at :: "int \<Rightarrow> int \<Rightarrow> position" where
  "old_position_at l c =
     \<lparr>lineno = Has (Some l), col_offset = Has (Some c),
      end_lineno = Missing, end_col_offset = Missing\<rparr>"

text \<open>
  The position of a statement node built by hand, from Python 3.8 on, with a start and
  no end: both end attributes are there with the value \<open>None\<close>.
\<close>

definition unset_end_position_at :: "int \<Rightarrow> int \<Rightarrow> position" where
  "unset_end_position_at l c =
     \<lparr>lineno = Has (Some l), col_offset = Has (Some c),
      end_lineno = Has None, end_col_offset = Has None\<rparr>"

text \<open>A node of a class without position attributes (\<open>Module\<close>, \<open>arguments\<close>).\<close>

definition unpositioned :: position where
  "unpositioned =
     \<lparr>lineno = Missing, col_offset = Missing, end_lineno = Missing, end_col_offset = Missing\<rparr>"

text \<open>
  A file \<open>views.py\<close> and its tree:
  \<^verbatim>\<open>
  class Foo:
      def bar(self): pass
  def baz(): pass
  \<close>
\<close>

definition example_views_source :: string where
  "example_views_source =
     ''class Foo:'' @ [CHR 0x0A] @ ''    def bar(self): pass'' @ [CHR 0x0A] @ ''def baz(): pass''"

definition example_bar :: node where
  "example_bar =
     Node (FunctionDef ''bar'') (position_at 2 4 2 23)
       [Node Other unpositioned [Node Other (position_at 2 12 2 16) []],
        Node Other (position_at 2 19 2 23) []]"

definition example_foo :: node where
  "example_foo = Node (ClassDef ''Foo'') (position_at 1 0 2 23) [example_bar]"

definition example_baz :: node where
  "example_baz =
     Node (FunctionDef ''baz'') (position_at 3 0 3 15)
       [Node Other unpositioned [], Node Other (position_at 3 11 3 15) []]"

definition example_views_tree :: node where
  "example_views_tree = Node Other unpositioned [example_foo, example_baz]"

text \<open>The tree of \<^verbatim>\<open>import a; from b import c as d; import e as f\<close>.\<close>

definition example_flat_imports_tree :: node where
  "example_flat_imports_tree =
     Node Other unpositioned
       [Node (Import [\<lparr>alias_name = ''a'', alias_asname = None\<rparr>]) (position_at 1 0 1 8)
          [Node Other (position_at 1 7 1 8) []],
        Node (ImportFrom (Some ''b'') [\<lparr>alias_name = ''c'', alias_asname = Some ''d''\<rparr>])
          (position_at 1 10 1 30) [Node Other (position_at 1 24 1 30) []],
        Node (Import [\<lparr>alias_name = ''e'', alias_asname = Some ''f''\<rparr>]) (position_at 1 32 1 45)
          [Node Other (position_at 1 39 1 45) []]]"

text \<open>
  The tree of a file with an import inside a function, before an import at top level:
  \<^verbatim>\<open>
  def f():
      import a
  import b
  \<close>
\<close>

definition example_nested_import_tree :: node where
  "example_nested_import_tree =
     Node Other unpositioned
       [Node (FunctionDef ''f'') (position_at 1 0 2 12)
          [Node Other unpositioned [],
           Node (Import [\<lparr>alias_name = ''a'', alias_asname = None\<rparr>]) (position_at 2 4 2 12)
             [Node Other (position_at 2 11 2 12) []]],
        Node (Import [\<lparr>alias_name = ''b'', alias_asname = None\<rparr>]) (position_at 3 0 3 8)
          [Node Other (position_at 3 7 3 8) []]]"

text \<open>
  A project with one app \<open>shop\<close>: \<open>views.py\<close> as above, \<open>broken.py\<close> that does not
  parse, \<open>locked.py\<close> that may not be read, and empty files otherwise.
\<close>

definition example_env :: scan_env where
  "example_env =
     \<lparr>now_isoformat = ''2024-05-01T12:00:00'',
      rglob_py = (\<lambda>p. if p = [''shop'']
                       then [[''shop'', ''views.py''], [''shop'', ''broken.py''],
                             [''shop'', ''migrations'', ''__init__.py''],
                             [''shop'', ''migrations'', ''0001_initial.py''],
                             [''shop'', ''run_migrations.py'']]
                       else []),
      read_text = (\<lambda>p. if p = [''shop'', ''views.py''] then Inr example_views_source
                        else if p = [''shop'', ''broken.py''] then Inr ''def (''
                        else if p = [''shop'', ''locked.py''] then Inl PermissionError
                        else Inr []),
      ast_parse = (\<lambda>s. if s = example_views_source then Inr example_views_tree
                        else if s = ''def ('' then Inl SyntaxError
                        else Inr (Node Other unpositioned [])),
      resolve = (\<lambda>p. ''/srv/project/'' @ path_str p),
      open_output = (\<lambda>f. None)\<rparr>"

section \<open>The location resolver gives a span for a node with line numbers\<close>

lemma get_node_line_numbers_span_of:
  "has_line_numbers n \<Longrightarrow> get_node_line_numbers n ls = Inr (span_of ls n)"
  by (auto simp: has_line_numbers_def span_of_def get_node_line_numbers_def
        line_numbers_try_def getattr_def py_index_def Let_def
      split: attribute.splits option.splits sum.splits)

lemma parsed_has_line_numbers:
  "parsed t \<Longrightarrow> n \<in> set (preorder t) \<Longrightarrow> is_declaration n \<Longrightarrow> has_line_numbers n"
  by (simp add: parsed_def list_all_iff)

section \<open>The walk visits every node of the tree once\<close>

lemma mset_preorder:
  "mset (preorder n) = add_mset n (mset (concat (map preorder (iter_child_nodes n))))"
  by (cases n) simp

lemma walk_queue_append:
  "walk_queue (q @ r) = q @ walk_queue (r @ concat (map iter_child_nodes q))"
  by (induction q arbitrary: r) simp_all

lemma mset_walk_queue: "mset (walk_queue q) = mset (concat (map preorder q))"
proof (induction q rule: walk_queue.induct)
  case 1
  show ?case by simp
next
  case (2 n todo)
  have "mset (walk_queue (n # todo)) = add_mset n (mset (walk_queue (todo @ iter_child_nodes n)))"
    by simp
  also have "\<dots> = add_mset n (mset (concat (map preorder (todo @ iter_child_nodes n))))"
    using "2.IH" by simp
  also have "\<dots> = mset (preorder n) + mset (concat (map preorder todo))"
    by (simp add: mset_preorder)
  finally show ?case by simp
qed

lemma mset_walk: "mset (walk t) = mset (preorder t)"
  unfolding walk_def mset_walk_queue by simp

lemma mset_walk_descendants: "mset (walk t) = add_mset t (mset (descendants t))"
  by (simp add: mset_walk mset_preorder descendants_def)

lemma set_walk: "set (walk t) = set (preorder t)"
  using mset_walk [of t] by (metis set_mset_mset)

lemma count_walk: "count_list (walk t) n = count_list (preorder t) n"
  using mset_walk [of t] by (metis count_mset)

lemma count_filter: "P n \<Longrightarrow> count_list (filter P xs) n = count_list xs n"
  by (induction xs) auto

lemma map_memberI: "x \<in> set xs \<Longrightarrow> g x \<in> set (map g xs)"
  by simp

lemma preorder_trans:
  "c \<in> set (preorder t) \<Longrightarrow> f \<in> set (preorder c) \<Longrightarrow> f \<in> set (preorder t)"
  by (induction t) auto

lemma descendants_preorder: "f \<in> set (descendants c) \<Longrightarrow> f \<in> set (preorder c)"
  by (cases c) (simp add: descendants_def)

section \<open>The walk goes level by level\<close>

lemma concat_map_concat:
  "concat (map f (concat xss)) = concat (map (\<lambda>xs. concat (map f xs)) xss)"
  by (induction xss) simp_all

lemma concat_level_0: "concat (map (level 0) ns) = ns"
  by (induction ns) simp_all

lemma children_of_level:
  "concat (map iter_child_nodes (level d n)) = level (Suc d) n"
proof (induction d arbitrary: n)
  case 0
  show ?case by (simp add: concat_level_0)
next
  case (Suc d)
  have "concat (map iter_child_nodes (level (Suc d) n)) =
      concat (map (\<lambda>c. concat (map iter_child_nodes (level d c))) (iter_child_nodes n))"
    by (simp add: concat_map_concat comp_def)
  also have "\<dots> = concat (map (level (Suc d)) (iter_child_nodes n))"
    by (simp only: Suc.IH)
  finally show ?case by simp
qed

lemma children_of_level_queue:
  "concat (map iter_child_nodes (concat (map (level d) q))) = concat (map (level (Suc d)) q)"
proof -
  have "concat (map iter_child_nodes (concat (map (level d) q))) =
      concat (map (\<lambda>n. concat (map iter_child_nodes (level d n))) q)"
    by (simp add: concat_map_concat comp_def)
  also have "\<dots> = concat (map (level (Suc d)) q)"
    by (simp only: children_of_level)
  finally show ?thesis .
qed

lemma walk_queue_levels:
  "walk_queue q =
     concat (map (\<lambda>d. concat (map (level d) q)) [0..<h]) @ walk_queue (concat (map (level h) q))"
proof (induction h)
  case 0
  show ?case by (simp add: concat_level_0)
next
  case (Suc h)
  let ?L = "concat (map (level h) q)"
  have "walk_queue ?L = ?L @ walk_queue (concat (map iter_child_nodes ?L))"
    using walk_queue_append [of ?L "[]"] by simp
  then have "walk_queue ?L = ?L @ walk_queue (concat (map (level (Suc h)) q))"
    by (simp only: children_of_level_queue)
  with Suc.IH show ?case by (simp del: level.simps)
qed

lemma foldr_max_ge: "x \<in> set xs \<Longrightarrow> (x::nat) \<le> foldr max xs 0"
  by (induction xs) auto

lemma level_beyond: "levels n \<le> d \<Longrightarrow> level d n = []"
proof (induction d arbitrary: n)
  case 0
  then show ?case by (cases n) simp
next
  case (Suc d)
  obtain k p cs where n: "n = Node k p cs" by (cases n)
  have "level d c = []" if "c \<in> set cs" for c
  proof -
    have "levels c \<le> foldr max (map levels cs) 0"
      using that by (intro foldr_max_ge) simp
    with Suc.prems n have "levels c \<le> d" by simp
    then show ?thesis by (rule Suc.IH)
  qed
  then show ?case by (simp add: n)
qed

lemma walk_levels: "walk t = concat (map (\<lambda>d. level d t) [0..<levels t])"
  using walk_queue_levels [of "[t]" "levels t"] by (simp add: walk_def level_beyond)

section \<open>The loops of the extractors as maps over the walk\<close>

lemma methods_loop_eq:
  "\<forall>n \<in> set ns. is_function_like n \<longrightarrow> has_line_numbers n \<Longrightarrow>
   methods_loop c ls ns acc =
     Inr (acc @ map (method_of ls) (filter (\<lambda>n. is_function_like n \<and> n \<noteq> c) ns))"
  by (induction ns arbitrary: acc)
     (simp_all add: get_node_line_numbers_span_of method_of_def)

lemma nodes_loop_eq:
  "\<forall>n \<in> set ns. is_declaration n \<longrightarrow>
      has_line_numbers n \<and> (\<forall>m \<in> set (walk n). is_function_like m \<longrightarrow> has_line_numbers m) \<Longrightarrow>
   nodes_loop ls ns acc = Inr (acc @ map (declaration_of ls) (filter is_declaration ns))"
proof (induction ns arbitrary: acc)
  case Nil
  show ?case by simp
next
  case (Cons n ns)
  show ?case
  proof (cases "is_declaration n")
    case False
    then show ?thesis
      using Cons by (simp add: is_declaration_def)
  next
    case True
    with Cons.prems have p: "has_line_numbers n"
      and m: "\<forall>m \<in> set (walk n). is_function_like m \<longrightarrow> has_line_numbers m"
      by simp_all
    show ?thesis
    proof (cases "is_class n")
      case True
      then show ?thesis
        using Cons p methods_loop_eq [OF m, of n ls "[]"]
        by (simp add: get_node_line_numbers_span_of declaration_of_def is_declaration_def
              method_nodes_def)
    next
      case False
      with \<open>is_declaration n\<close> show ?thesis
        using Cons p
        by (simp add: get_node_line_numbers_span_of declaration_of_def is_declaration_def)
    qed
  qed
qed

lemma extract_eq:
  assumes "parsed t"
  shows "extract_functions_classes (Some t) source =
     Inr (map (declaration_of (source_lines_of source)) (filter is_declaration (walk t)))"
proof -
  have "has_line_numbers n \<and> (\<forall>m \<in> set (walk n). is_function_like m \<longrightarrow> has_line_numbers m)"
    if n: "n \<in> set (walk t)" and d: "is_declaration n" for n
  proof
    from n have nt: "n \<in> set (preorder t)"
      by (simp add: set_walk)
    with assms d show "has_line_numbers n"
      using parsed_has_line_numbers by blast
    show "\<forall>m \<in> set (walk n). is_function_like m \<longrightarrow> has_line_numbers m"
    proof (intro ballI impI)
      fix m
      assume "m \<in> set (walk n)" and f: "is_function_like m"
      then have "m \<in> set (preorder n)"
        by (simp add: set_walk)
      with nt have "m \<in> set (preorder t)"
        by (rule preorder_trans)
      moreover from f have "is_declaration m"
        by (simp add: is_declaration_def)
      ultimately show "has_line_numbers m"
        using assms parsed_has_line_numbers by blast
    qed
  qed
  then show ?thesis
    by (simp add: extract_functions_classes_def nodes_loop_eq)
qed

lemma function_like_not_class: "is_function_like n \<Longrightarrow> \<not> is_class n"
  by (simp add: is_function_like_def is_class_def split: node_kind.splits)

lemma method_nodes_class:
  "is_class c \<Longrightarrow> method_nodes c = filter is_function_like (walk c)"
  unfolding method_nodes_def
  by (rule filter_cong) (auto dest: function_like_not_class)

lemma mset_method_nodes:
  assumes "is_class c"
  shows "mset (method_nodes c) = filter_mset is_function_like (mset (descendants c))"
proof -
  have "\<not> is_function_like c"
    using assms function_like_not_class by blast
  then have "filter_mset is_function_like (mset (walk c)) =
      filter_mset is_function_like (mset (descendants c))"
    by (simp add: mset_walk_descendants)
  then show ?thesis
    using assms by (simp add: method_nodes_class)
qed

lemma count_method_nodes:
  assumes "is_class c" and "is_function_like f"
  shows "count_list (method_nodes c) f = count_list (descendants c) f"
proof -
  have "count (mset (method_nodes c)) f = count (mset (descendants c)) f"
    using assms by (simp add: mset_method_nodes)
  then show ?thesis
    by (simp only: count_mset)
qed

lemma import_names_loop_eq:
  "import_names_loop names acc =
     acc @ map (\<lambda>a. PlainImport (alias_name a) (str_or (alias_asname a) (alias_name a))) names"
  by (induction names arbitrary: acc) simp_all

lemma importfrom_names_loop_eq:
  "importfrom_names_loop m names acc =
     acc @ map (\<lambda>a. FromImport m (alias_name a) (alias_asname a)) names"
  by (induction names arbitrary: acc) simp_all

lemma imports_loop_eq: "imports_loop ns acc = acc @ concat (map import_records ns)"
  by (induction ns arbitrary: acc)
     (simp_all add: import_records_def import_names_loop_eq importfrom_names_loop_eq
        split: node_kind.splits)

section \<open>Paths and the file filter\<close>

lemma str_contains_prefix: "str_contains sub (sub @ b)"
proof (cases "sub @ b")
  case Nil
  then show ?thesis by simp
next
  case (Cons c cs)
  have "take (length sub) (c # cs) = sub"
    unfolding Cons [symmetric] by simp
  then have "str_contains sub (c # cs)"
    by simp
  then show ?thesis
    by (simp only: Cons)
qed

lemma str_contains_infix: "str_contains sub (a @ sub @ b)"
  by (induction a) (simp_all add: str_contains_prefix)

lemma join_has_segment: "x \<in> set xs \<Longrightarrow> \<exists>a b. join sep xs = a @ x @ b"
proof (induction sep xs rule: join.induct)
  case (1 sep)
  then show ?case by simp
next
  case (2 sep y)
  then have "join sep [y] = [] @ x @ []" by simp
  then show ?case by blast
next
  case (3 sep y z zs)
  show ?case
  proof (cases "x = y")
    case True
    then have "join sep (y # z # zs) = [] @ x @ (sep @ join sep (z # zs))" by simp
    then show ?thesis by blast
  next
    case False
    with "3.prems" have "x \<in> set (z # zs)" by simp
    then obtain a b where "join sep (z # zs) = a @ x @ b"
      using "3.IH" by blast
    then have "join sep (y # z # zs) = (y @ sep @ a) @ x @ b" by simp
    then show ?thesis by blast
  qed
qed

lemma segment_in_path_str: "seg \<in> set p \<Longrightarrow> str_contains seg (path_str p)"
proof -
  assume a: "seg \<in> set p"
  then have "p \<noteq> []" by auto
  moreover obtain u v where "join ''/'' p = u @ seg @ v"
    using join_has_segment [OF a] by blast
  ultimately show ?thesis
    by (simp add: path_str_def str_contains_infix)
qed

lemma spec_excluded_not_scanned: "spec_excluded p \<Longrightarrow> \<not> passes_filter p"
proof -
  assume a: "spec_excluded p"
  then have "''migrations'' \<in> set p"
    unfolding spec_excluded_def by (meson in_set_butlastD)
  then have "str_contains ''migrations'' (path_str p)"
    by (rule segment_in_path_str)
  with a show ?thesis
    by (simp add: spec_excluded_def passes_filter_def)
qed

lemma files_loop_passes:
  "passes_filter p \<Longrightarrow>
     files_loop env (p # rest) files =
       (case parse_code env p of
          Inl err \<Rightarrow> Inl err
        | Inr (tree, source) \<Rightarrow>
            (case extract_functions_classes tree source of
               Inl err \<Rightarrow> Inl err
             | Inr items \<Rightarrow>
                 files_loop env rest
                   (files @ [\<lparr>file_name = path_name p,
                              relative_path = path_str p,
                              absolute_path = resolve env p,
                              file_items = items,
                              file_imports = find_imports_and_relations tree source p\<rparr>])))"
  by (auto simp: passes_filter_def)

lemma files_loop_skips:
  "\<not> passes_filter p \<Longrightarrow> files_loop env (p # rest) files = files_loop env rest files"
  by (auto simp: passes_filter_def)

lemma files_loop_paths:
  "files_loop env ps acc = Inr fs \<Longrightarrow>
     map relative_path fs = map relative_path acc @ map path_str (filter passes_filter ps)"
proof (induction ps arbitrary: acc)
  case Nil
  then show ?case by simp
next
  case (Cons p ps)
  show ?case
  proof (cases "passes_filter p")
    case False
    with Cons.prems have "files_loop env ps acc = Inr fs"
      by (simp add: passes_filter_def)
    with False show ?thesis
      using Cons.IH by simp
  next
    case True
    with Cons.prems obtain fd where "files_loop env ps (acc @ [fd]) = Inr fs"
      and "relative_path fd = path_str p"
      by (auto simp: passes_filter_def split: sum.splits prod.splits)
    with True show ?thesis
      using Cons.IH [of "acc @ [fd]"] by simp
  qed
qed

lemma files_loop_none_pass:
  "filter passes_filter ps = [] \<Longrightarrow> files_loop env ps acc = Inr acc"
  by (induction ps) (auto simp: passes_filter_def split: if_splits)

lemma apps_loop_no_files:
  "\<forall>a \<in> set app_paths. filter passes_filter (rglob_py env a) = [] \<Longrightarrow>
     apps_loop env app_paths acc =
       Inr (acc @ map (\<lambda>a. \<lparr>app_name = path_name a, app_path_str = path_str a, app_files = []\<rparr>)
                    app_paths)"
  by (induction app_paths arbitrary: acc) (simp_all add: files_loop_none_pass)

lemma example_views_tree_parsed: "parsed example_views_tree"
  by (simp add: parsed_def example_views_tree_def example_foo_def example_bar_def
        example_baz_def position_at_def unpositioned_def has_line_numbers_def
        is_declaration_def is_function_like_def is_class_def)

section \<open>Parser adapter and read failures\<close>

text \<open>
  Claim C1, as amended. For every file that the filter lets through: when reading or
  parsing it raises \<open>SyntaxError\<close> or \<open>UnicodeDecodeError\<close>, the parser adapter returns
  the absent signal \<open>(None, None)\<close>, the file contributes a record with empty
  declarations and imports, and the loop goes on with the remaining files. When it raises
  anything else, such as the \<open>PermissionError\<close> or \<open>OSError\<close> of a failed read, the
  exception leaves the parser adapter and ends the loop over the files.
\<close>

theorem parse_failure_handling:
  assumes "parse_code_try env py_file = Inl err" and "passes_filter py_file"
  shows "if err = SyntaxError \<or> err = UnicodeDecodeError
         then parse_code env py_file = Inr (None, None) \<and>
              files_loop env (py_file # rest) files =
                files_loop env rest
                  (files @ [\<lparr>file_name = path_name py_file,
                             relative_path = path_str py_file,
                             absolute_path = resolve env py_file,
                             file_items = [], file_imports = []\<rparr>])
         else parse_code env py_file = Inl err \<and>
              files_loop env (py_file # rest) files = Inl err"
proof (cases "err = SyntaxError \<or> err = UnicodeDecodeError")
  case True
  with assms(1) have "parse_code env py_file = Inr (None, None)"
    by (auto simp: parse_code_def)
  with True assms(2) show ?thesis
    by (simp add: files_loop_passes extract_functions_classes_def
          find_imports_and_relations_def del: files_loop.simps)
next
  case False
  with assms(1) have "parse_code env py_file = Inl err"
    by (simp add: parse_code_def)
  with False assms(2) show ?thesis
    by (simp add: files_loop_passes del: files_loop.simps)
qed

theorem parse_failure_handling_witness:
  "(parse_code example_env [''shop'', ''broken.py''] = Inr (None, None) \<and>
    files_loop example_env [[''shop'', ''broken.py'']] [] =
      Inr [\<lparr>file_name = ''broken.py'', relative_path = ''shop/broken.py'',
            absolute_path = ''/srv/project/shop/broken.py'',
            file_items = [], file_imports = []\<rparr>]) \<and>
   (parse_code example_env [''shop'', ''locked.py''] = Inl PermissionError \<and>
    files_loop example_env [[''shop'', ''locked.py'']] [] = Inl PermissionError)"
proof -
  have t1: "parse_code_try example_env [''shop'', ''broken.py''] = Inl SyntaxError"
    by (simp add: parse_code_try_def example_env_def example_views_source_def)
  have f1: "passes_filter [''shop'', ''broken.py'']"
    by (simp add: passes_filter_def path_str_def path_name_def)
  have t2: "parse_code_try example_env [''shop'', ''locked.py''] = Inl PermissionError"
    by (simp add: parse_code_try_def example_env_def)
  have f2: "passes_filter [''shop'', ''locked.py'']"
    by (simp add: passes_filter_def path_str_def path_name_def)
  have r: "resolve example_env [''shop'', ''broken.py''] = ''/srv/project/shop/broken.py''"
    by (simp add: example_env_def path_str_def)
  show ?thesis
    using parse_failure_handling [OF t1 f1, of "[]" "[]"]
      parse_failure_handling [OF t2 f2, of "[]" "[]"]
    by (simp add: path_str_def path_name_def r del: files_loop.simps(2))
qed

text \<open>
  The claim as the specification states it fails: a permission error on one file is not
  turned into the absent signal, and the files after it are not scanned.
\<close>

theorem read_failure_counterexample:
  "parse_code example_env [''shop'', ''locked.py''] = Inl PermissionError \<and>
   files_loop example_env [[''shop'', ''locked.py''], [''shop'', ''views.py'']] [] =
     Inl PermissionError"
  by (simp add: parse_code_def parse_code_try_def example_env_def
        path_str_def path_name_def)

section \<open>Empty list of roots\<close>

text \<open>
  Claim C2, as amended. For an empty list of roots the aggregator returns no project
  model (the bare \<open>return\<close>) and writes no document. When roots are supplied and every
  root has zero qualifying files (and the output file can be opened), it returns and
  writes a project model with one app record per root, each with an empty file list; so
  the two outcomes differ.
\<close>

theorem empty_roots_result:
  assumes "app_paths \<noteq> []"
    and "\<forall>a \<in> set app_paths. filter passes_filter (rglob_py env a) = []"
    and "open_output env output_file = None"
  shows "generate_project_structure_json env [] output_file =
           Inr \<lparr>returned = None, written = None\<rparr> \<and>
         (\<exists>project.
            generate_project_structure_json env app_paths output_file =
              Inr \<lparr>returned = Some project, written = Some (output_file, project)\<rparr> \<and>
            generated_at project = now_isoformat env \<and>
            apps project =
              map (\<lambda>a. \<lparr>app_name = path_name a, app_path_str = path_str a, app_files = []\<rparr>)
                app_paths \<and>
            apps project \<noteq> []) \<and>
         generate_project_structure_json env app_paths output_file \<noteq>
           generate_project_structure_json env [] output_file"
  using assms
  by (simp add: generate_project_structure_json_def apps_loop_no_files Let_def)

theorem empty_roots_result_witness:
  "generate_project_structure_json example_env [] ''out.json'' =
     Inr \<lparr>returned = None, written = None\<rparr> \<and>
   generate_project_structure_json example_env [[''blog'']] ''out.json'' \<noteq>
     generate_project_structure_json example_env [] ''out.json''"
proof -
  have h1: "[[''blog'']] \<noteq> ([] :: path list)"
    by simp
  have h2: "\<forall>a \<in> set [[''blog'']]. filter passes_filter (rglob_py example_env a) = []"
    by (simp add: example_env_def)
  have h3: "open_output example_env ''out.json'' = None"
    by (simp add: example_env_def)
  show ?thesis
    using empty_roots_result [OF h1 h2 h3] by metis
qed

text \<open>
  The claim as the specification states it fails: for the empty list no project model
  with an empty \<open>apps\<close> sequence is returned.
\<close>

theorem empty_roots_counterexample:
  "generate_project_structure_json example_env [] ''out.json'' =
     Inr \<lparr>returned = None, written = None\<rparr> \<and>
   \<not> returns_empty_model (generate_project_structure_json example_env [] ''out.json'')"
  by (simp add: generate_project_structure_json_def returns_empty_model_def)

section \<open>Order of the import records\<close>

text \<open>
  Claim C3, as amended. For every successfully parsed file the import extractor emits
  the records of the import statements in the order of the breadth-first walk: all
  statements at one nesting depth in the order of the source text, and every statement
  at a smaller depth before any statement at a greater depth. In particular, for the file
  \<^verbatim>\<open>import a; from b import c as d; import e as f\<close>, whose imports all lie at top
  level, the output is the plain import of \<open>a\<close>, the from-import of \<open>c\<close> from \<open>b\<close> with
  alias \<open>d\<close>, and the plain import of \<open>e\<close> bound to \<open>f\<close>, in that order.
\<close>

theorem imports_breadth_first:
  "find_imports_and_relations (Some t) source file_path =
     concat (map import_records (concat (map (\<lambda>d. level d t) [0..<levels t]))) \<and>
   find_imports_and_relations (Some example_flat_imports_tree) source file_path =
     [PlainImport ''a'' ''a'', FromImport ''b'' ''c'' (Some ''d''), PlainImport ''e'' ''f'']"
proof
  show "find_imports_and_relations (Some t) source file_path =
      concat (map import_records (concat (map (\<lambda>d. level d t) [0..<levels t])))"
    by (simp add: find_imports_and_relations_def imports_loop_eq walk_levels)
next
  show "find_imports_and_relations (Some example_flat_imports_tree) source file_path =
      [PlainImport ''a'' ''a'', FromImport ''b'' ''c'' (Some ''d''), PlainImport ''e'' ''f'']"
    by (simp add: find_imports_and_relations_def walk_def example_flat_imports_tree_def
          str_or_def)
qed

text \<open>
  The claim as the specification states it fails for an import nested in a function that
  comes before an import at top level: the nested one is written first and emitted last.
\<close>

theorem import_source_order_counterexample:
  "find_imports_and_relations (Some example_nested_import_tree) None [''shop'', ''views.py''] =
     [PlainImport ''b'' ''b'', PlainImport ''a'' ''a''] \<and>
   source_order_imports example_nested_import_tree =
     [PlainImport ''a'' ''a'', PlainImport ''b'' ''b'']"
  by (simp add: find_imports_and_relations_def walk_def example_nested_import_tree_def
        source_order_imports_def import_records_def str_or_def)

section \<open>Fallback of the location resolver\<close>

text \<open>
  Claim C4, as amended. For every node whose \<open>lineno\<close> is an integer, the location
  resolver does not raise unless \<open>end_lineno\<close> is \<open>None\<close> while \<open>end_col_offset\<close> is
  missing. When the node has neither an \<open>end_lineno\<close> nor an \<open>end_col_offset\<close>
  attribute, then \<open>line_end = line_start\<close>; if the line at \<open>line_end\<close> exists,
  \<open>col_start\<close> is the node's \<open>col_offset\<close> (0 only when the node has no such attribute)
  and \<open>col_end\<close> is the length of that line; if \<open>line_end\<close> lies beyond the available
  lines, the indexing failure degrades to \<open>col_start = 0\<close> and \<open>col_end = 0\<close>. In all
  cases the line is the one that Python's list index \<open>source_lines[line_end - 1]\<close> finds,
  and the degenerate columns are those of its \<open>IndexError\<close>.
\<close>

theorem location_resolver_fallback:
  assumes "lineno (pos n) = Has (Some l)"
  shows "(\<not> (end_lineno (pos n) = Has None \<and> end_col_offset (pos n) = Missing) \<longrightarrow>
            (\<exists>s. get_node_line_numbers n ls = Inr s)) \<and>
         (end_lineno (pos n) = Missing \<and> end_col_offset (pos n) = Missing \<longrightarrow>
            (1 \<le> l \<and> l \<le> int (length ls) \<longrightarrow>
               get_node_line_numbers n ls =
                 Inr \<lparr>line_start = Some l, line_end = Some l,
                      col_start = (case col_offset (pos n) of Has v \<Rightarrow> v | Missing \<Rightarrow> Some 0),
                      col_end = Some (int (length (ls ! nat (l - 1))))\<rparr>) \<and>
            (int (length ls) < l \<longrightarrow>
               get_node_line_numbers n ls =
                 Inr \<lparr>line_start = Some l, line_end = Some l,
                      col_start = Some 0, col_end = Some 0\<rparr>) \<and>
            get_node_line_numbers n ls =
              Inr (case py_index ls (l - 1) of
                     Inr line \<Rightarrow>
                       \<lparr>line_start = Some l, line_end = Some l,
                        col_start = (case col_offset (pos n) of Has v \<Rightarrow> v | Missing \<Rightarrow> Some 0),
                        col_end = Some (int (length line))\<rparr>
                   | Inl err \<Rightarrow>
                       \<lparr>line_start = Some l, line_end = Some l,
                        col_start = Some 0, col_end = Some 0\<rparr>))"
  using assms
  by (auto simp: get_node_line_numbers_def line_numbers_try_def getattr_def py_index_def Let_def
           split: attribute.splits option.splits sum.splits)

theorem location_resolver_fallback_witness:
  "get_node_line_numbers (Node (FunctionDef ''f'') (old_position_at 2 4) [])
     [''class A:'', ''    def f(self): pass''] =
   Inr \<lparr>line_start = Some 2, line_end = Some 2, col_start = Some 4, col_end = Some 21\<rparr> \<and>
   get_node_line_numbers (Node (FunctionDef ''f'') (old_position_at 2 4) []) [''class A:''] =
   Inr \<lparr>line_start = Some 2, line_end = Some 2, col_start = Some 0, col_end = Some 0\<rparr> \<and>
   (\<exists>s. get_node_line_numbers (Node (FunctionDef ''f'') (old_position_at 2 4) [])
          [''class A:''] = Inr s)"
proof -
  have h: "lineno (pos (Node (FunctionDef ''f'') (old_position_at 2 4) [])) = Has (Some 2)"
    by (simp add: old_position_at_def)
  show ?thesis
    using location_resolver_fallback [OF h, of "[''class A:'', ''    def f(self): pass'']"]
      location_resolver_fallback [OF h, of "[''class A:'']"]
    by (simp add: old_position_at_def)
qed

text \<open>
  The claim as the specification states it fails in three ways. For a nested function
  parsed by an interpreter without end positions the line is resolvable, and
  \<open>col_start\<close> is the node's column 4, not 0. For a node without \<open>lineno\<close> the resolver
  raises \<open>AttributeError\<close>. For a node whose end attributes are there with the value
  \<open>None\<close> no fallback is applied: \<open>line_end\<close> and \<open>col_end\<close> are \<open>None\<close>.
\<close>

theorem location_resolver_counterexample:
  "get_node_line_numbers (Node (FunctionDef ''f'') (old_position_at 2 4) [])
     [''class A:'', ''    def f(self): pass''] =
   Inr \<lparr>line_start = Some 2, line_end = Some 2, col_start = Some 4, col_end = Some 21\<rparr> \<and>
   get_node_line_numbers (Node Other unpositioned []) [''class A:''] = Inl AttributeError \<and>
   get_node_line_numbers (Node (FunctionDef ''f'') (unset_end_position_at 1 0) [])
     [''def f(): pass''] =
   Inr \<lparr>line_start = Some 1, line_end = None, col_start = Some 0, col_end = None\<rparr>"
  by (simp add: get_node_line_numbers_def line_numbers_try_def getattr_def py_index_def
        old_position_at_def unpositioned_def unset_end_position_at_def)

section \<open>Default file filter\<close>

lemma migrations_directory_skipped:
  "spec_excluded p \<Longrightarrow> files_loop env (p # rest) files = files_loop env rest files"
  by (simp add: files_loop_skips spec_excluded_not_scanned del: files_loop.simps)

text \<open>
  Claim C5. The claim says that the filter leaves out exactly the files under a path
  segment named \<open>migrations\<close>, except \<open>__init__.py\<close>, and the comment of the source says
  that migration files are skipped. The source tests instead whether the string of the
  whole path contains \<open>migrations\<close>. So it leaves out \<open>shop/run_migrations.py\<close>, and
  every file of an app named \<open>data_migrations\<close>, though neither lies under a segment
  named \<open>migrations\<close>: the code does not do what the claim says there.
\<close>

theorem migrations_filter_failing_input:
  "\<not> spec_excluded [''shop'', ''run_migrations.py''] \<and>
   files_loop example_env [[''shop'', ''run_migrations.py'']] [] = Inr [] \<and>
   \<not> spec_excluded [''data_migrations'', ''models.py''] \<and>
   files_loop example_env [[''data_migrations'', ''models.py'']] [] = Inr []"
  by (simp add: spec_excluded_def path_str_def path_name_def)

section \<open>Methods of a class\<close>

text \<open>
  Claim C6. For every class declaration \<open>c\<close> of a parsed tree, the declarations list has
  the class record of \<open>c\<close>, and its methods list, built by the second walk over the
  subtree of \<open>c\<close>, has one method record for each node that the walk keeps. The nodes
  kept are exactly the function and async-function nodes below \<open>c\<close>, at any depth, each
  as often as it occurs there; the class node itself is not among them.
\<close>

theorem class_methods_exact:
  assumes "parsed t" and "c \<in> set (preorder t)" and "is_class c"
  shows "\<exists>ds ms. extract_functions_classes (Some t) source = Inr ds \<and>
           Class (node_name c) (span_of (source_lines_of source) c) ms \<in> set ds \<and>
           methods_loop c (source_lines_of source) (walk c) [] = Inr ms \<and>
           ms = map (method_of (source_lines_of source)) (method_nodes c) \<and>
           mset (method_nodes c) = filter_mset is_function_like (mset (descendants c)) \<and>
           c \<notin> set (method_nodes c)"
proof -
  let ?ls = "source_lines_of source"
  have "c \<in> set (filter is_declaration (walk t))"
    using assms(2,3) by (simp add: set_walk is_declaration_def)
  then have "declaration_of ?ls c \<in> set (map (declaration_of ?ls) (filter is_declaration (walk t)))"
    by (rule map_memberI)
  moreover have "declaration_of ?ls c =
      Class (node_name c) (span_of ?ls c) (map (method_of ?ls) (method_nodes c))"
    using assms(3) by (simp add: declaration_of_def)
  moreover have "has_line_numbers m" if "m \<in> set (walk c)" and "is_function_like m" for m
  proof -
    from that(1) have "m \<in> set (preorder c)"
      by (simp add: set_walk)
    with assms(2) have "m \<in> set (preorder t)"
      by (rule preorder_trans)
    moreover from that(2) have "is_declaration m"
      by (simp add: is_declaration_def)
    ultimately show ?thesis
      using assms(1) parsed_has_line_numbers by blast
  qed
  then have "methods_loop c ?ls (walk c) [] = Inr (map (method_of ?ls) (method_nodes c))"
    by (simp add: methods_loop_eq method_nodes_def)
  moreover have "c \<notin> set (method_nodes c)"
    by (simp add: method_nodes_def)
  ultimately show ?thesis
    using assms(1,3) by (simp add: extract_eq mset_method_nodes)
qed

theorem class_methods_exact_witness:
  "parsed example_views_tree \<and>
   example_foo \<in> set (preorder example_views_tree) \<and> is_class example_foo \<and>
   (\<exists>ds ms. extract_functions_classes (Some example_views_tree) (Some example_views_source) = Inr ds \<and>
      Class (node_name example_foo)
        (span_of (source_lines_of (Some example_views_source)) example_foo) ms \<in> set ds \<and>
      methods_loop example_foo (source_lines_of (Some example_views_source))
        (walk example_foo) [] = Inr ms \<and>
      ms = map (method_of (source_lines_of (Some example_views_source))) (method_nodes example_foo) \<and>
      mset (method_nodes example_foo) =
        filter_mset is_function_like (mset (descendants example_foo)) \<and>
      example_foo \<notin> set (method_nodes example_foo))"
proof -
  have h0: "parsed example_views_tree"
    by (simp add: example_views_tree_parsed)
  have h1: "example_foo \<in> set (preorder example_views_tree)"
    by (simp add: example_views_tree_def example_foo_def example_bar_def example_baz_def)
  have h2: "is_class example_foo"
    by (simp add: example_foo_def is_class_def)
  show ?thesis
    using class_methods_exact [OF h0 h1 h2, of "Some example_views_source"] h0 h1 h2 by blast
qed

section \<open>Every declaration once\<close>

text \<open>
  Claim C7. For every source file that parses, the declarations list is the list of the
  declaration records of the function, async-function and class nodes that the walk
  visits, one record per visit; and the walk visits each such node of the tree, at any
  nesting depth, exactly as often as it occurs in the tree. So no declaration is left
  out and none is recorded twice.
\<close>

theorem every_declaration_once:
  assumes "parsed t"
  shows "\<exists>ds. extract_functions_classes (Some t) source = Inr ds \<and>
        ds = map (declaration_of (source_lines_of source)) (filter is_declaration (walk t)) \<and>
        mset (filter is_declaration (walk t)) = filter_mset is_declaration (mset (preorder t)) \<and>
        length ds = length (filter is_declaration (preorder t))"
proof -
  have m: "mset (filter is_declaration (walk t)) = filter_mset is_declaration (mset (preorder t))"
    by (simp add: mset_walk)
  have "size (mset (filter is_declaration (walk t))) =
      size (mset (filter is_declaration (preorder t)))"
    by (simp add: mset_walk)
  then have "length (filter is_declaration (walk t)) = length (filter is_declaration (preorder t))"
    by (simp only: size_mset)
  with m show ?thesis
    using assms by (simp add: extract_eq)
qed

theorem every_declaration_once_witness:
  "parsed example_views_tree \<and>
   (\<exists>ds. extract_functions_classes (Some example_views_tree) (Some example_views_source) = Inr ds \<and>
        length ds = 3)"
proof -
  have h0: "parsed example_views_tree"
    by (simp add: example_views_tree_parsed)
  have "length (filter is_declaration (preorder example_views_tree)) = 3"
    by (simp add: example_views_tree_def example_foo_def example_bar_def example_baz_def
          is_declaration_def is_function_like_def is_class_def)
  then show ?thesis
    using every_declaration_once [OF h0, of "Some example_views_source"] h0 by auto
qed

section \<open>Invariant of the spans\<close>

text \<open>
  Claim C8, as amended. The location resolver copies the node's lines into the span: it
  does not order them. For every node whose \<open>lineno\<close> is an integer and whose
  \<open>end_lineno\<close> is missing or an integer not before \<open>lineno\<close>, as on every node the
  parser produces, it gives a span with \<open>line_start \<le> line_end\<close>; and whenever the node
  has no \<open>end_lineno\<close> attribute, \<open>line_end = line_start\<close>.
\<close>

theorem span_invariant:
  assumes "lineno (pos n) = Has (Some l)"
    and "end_lineno (pos n) = Missing \<or> (\<exists>e. end_lineno (pos n) = Has (Some e) \<and> l \<le> e)"
  shows "\<exists>s. get_node_line_numbers n ls = Inr s \<and> line_start s = Some l \<and> span_ordered s \<and>
              (end_lineno (pos n) = Missing \<longrightarrow> line_end s = line_start s)"
  using assms
  by (auto simp: get_node_line_numbers_def line_numbers_try_def getattr_def py_index_def
        span_ordered_def Let_def
      split: attribute.splits option.splits sum.splits)

theorem span_invariant_witness:
  "(\<exists>s. get_node_line_numbers example_foo (source_lines_of (Some example_views_source)) = Inr s \<and>
        line_start s = Some 1 \<and> span_ordered s) \<and>
   (\<exists>s. get_node_line_numbers (Node (FunctionDef ''f'') (old_position_at 2 4) [])
          [''class A:''] = Inr s \<and>
        line_start s = Some 2 \<and> span_ordered s \<and> line_end s = line_start s)"
proof -
  have a1: "lineno (pos example_foo) = Has (Some 1)"
    by (simp add: example_foo_def position_at_def)
  have a2: "end_lineno (pos example_foo) = Missing \<or>
      (\<exists>e. end_lineno (pos example_foo) = Has (Some e) \<and> 1 \<le> e)"
    by (simp add: example_foo_def position_at_def)
  have b1: "lineno (pos (Node (FunctionDef ''f'') (old_position_at 2 4) [])) = Has (Some 2)"
    by (simp add: old_position_at_def)
  have b0: "end_lineno (pos (Node (FunctionDef ''f'') (old_position_at 2 4) [])) = Missing"
    by (simp add: old_position_at_def)
  then have b2: "end_lineno (pos (Node (FunctionDef ''f'') (old_position_at 2 4) [])) = Missing \<or>
      (\<exists>e. end_lineno (pos (Node (FunctionDef ''f'') (old_position_at 2 4) [])) = Has (Some e) \<and>
           2 \<le> e)"
    by (rule disjI1)
  show ?thesis
    using span_invariant [OF a1 a2, of "source_lines_of (Some example_views_source)"]
      span_invariant [OF b1 b2, of "[''class A:'']"] b0
    by blast
qed

text \<open>
  The claim as the specification states it fails. A node built without end positions
  has, from Python 3.8 on, the two end attributes with the value \<open>None\<close>: it lacks
  end-position metadata, and its span has \<open>line_end = None\<close>, not \<open>line_start\<close>. And a
  node whose \<open>end_lineno\<close> is before its \<open>lineno\<close> gets a span with \<open>line_end\<close> before
  \<open>line_start\<close>.
\<close>

theorem span_invariant_counterexample:
  "get_node_line_numbers (Node (FunctionDef ''f'') (unset_end_position_at 1 0) [])
     [''def f(): pass''] =
   Inr \<lparr>line_start = Some 1, line_end = None, col_start = Some 0, col_end = None\<rparr> \<and>
   \<not> span_ordered \<lparr>line_start = Some 1, line_end = None, col_start = Some 0, col_end = None\<rparr> \<and>
   get_node_line_numbers (Node (FunctionDef ''g'') (position_at 5 0 3 9) []) [] =
   Inr \<lparr>line_start = Some 5, line_end = Some 3, col_start = Some 0, col_end = Some 9\<rparr> \<and>
   \<not> span_ordered \<lparr>line_start = Some 5, line_end = Some 3, col_start = Some 0, col_end = Some 9\<rparr>"
  by (simp add: get_node_line_numbers_def line_numbers_try_def getattr_def py_index_def
        span_ordered_def unset_end_position_at_def position_at_def)

section \<open>A method is recorded as a function and as a method\<close>

text \<open>
  Claim C10. Every function \<open>f\<close> defined below a class \<open>c\<close> of a parsed file appears in
  the output of its file as a Function record of the declarations list, emitted by the
  walk over the whole tree, and as a method record in the methods list of the class
  record of \<open>c\<close>; this holds for every class that encloses \<open>f\<close>, so a function in a
  nested class is in the methods list of each enclosing class. The whole-tree walk
  records \<open>f\<close> as often as it occurs in the tree, and the methods list of \<open>c\<close> as often as
  it occurs below \<open>c\<close>.
\<close>

theorem method_listed_twice:
  assumes "parsed t" and "c \<in> set (preorder t)" and "is_class c"
    and "f \<in> set (descendants c)" and "is_function_like f"
  shows "\<exists>ds ms. extract_functions_classes (Some t) source = Inr ds \<and>
           Function (node_name f) (is_async f) (span_of (source_lines_of source) f) [] \<in> set ds \<and>
           Class (node_name c) (span_of (source_lines_of source) c) ms \<in> set ds \<and>
           method_of (source_lines_of source) f \<in> set ms \<and>
           ds = map (declaration_of (source_lines_of source)) (filter is_declaration (walk t)) \<and>
           count_list (filter is_declaration (walk t)) f = count_list (preorder t) f \<and>
           ms = map (method_of (source_lines_of source)) (method_nodes c) \<and>
           count_list (method_nodes c) f = count_list (descendants c) f"
proof -
  let ?ls = "source_lines_of source"
  let ?decls = "filter is_declaration (walk t)"
  have f_in_c: "f \<in> set (preorder c)"
    using assms(4) by (rule descendants_preorder)
  then have "f \<in> set (preorder t)"
    using assms(2) preorder_trans by blast
  then have "f \<in> set ?decls"
    using assms(5) by (simp add: set_walk is_declaration_def)
  then have "declaration_of ?ls f \<in> set (map (declaration_of ?ls) ?decls)"
    by (rule map_memberI)
  moreover have "declaration_of ?ls f = Function (node_name f) (is_async f) (span_of ?ls f) []"
    using assms(5) function_like_not_class by (simp add: declaration_of_def)
  moreover have "c \<in> set ?decls"
    using assms(2,3) by (simp add: set_walk is_declaration_def)
  then have "declaration_of ?ls c \<in> set (map (declaration_of ?ls) ?decls)"
    by (rule map_memberI)
  moreover have "declaration_of ?ls c =
      Class (node_name c) (span_of ?ls c) (map (method_of ?ls) (method_nodes c))"
    using assms(3) by (simp add: declaration_of_def)
  moreover have "f \<in> set (method_nodes c)"
    using assms(3,5) f_in_c by (simp add: method_nodes_class set_walk)
  then have "method_of ?ls f \<in> set (map (method_of ?ls) (method_nodes c))"
    by (rule map_memberI)
  moreover have "count_list ?decls f = count_list (preorder t) f"
    using assms(5) by (simp add: count_filter is_declaration_def count_walk)
  moreover have "count_list (method_nodes c) f = count_list (descendants c) f"
    using assms(3,5) by (rule count_method_nodes)
  ultimately show ?thesis
    using assms(1) by (simp add: extract_eq)
qed

theorem method_listed_twice_witness:
  "parsed example_views_tree \<and>
   example_foo \<in> set (preorder example_views_tree) \<and> is_class example_foo \<and>
   example_bar \<in> set (descendants example_foo) \<and> is_function_like example_bar \<and>
   (\<exists>ds ms. extract_functions_classes (Some example_views_tree) (Some example_views_source) = Inr ds \<and>
      Function (node_name example_bar) (is_async example_bar)
        (span_of (source_lines_of (Some example_views_source)) example_bar) [] \<in> set ds \<and>
      Class (node_name example_foo)
        (span_of (source_lines_of (Some example_views_source)) example_foo) ms \<in> set ds \<and>
      method_of (source_lines_of (Some example_views_source)) example_bar \<in> set ms)"
proof -
  have h0: "parsed example_views_tree"
    by (simp add: example_views_tree_parsed)
  have h1: "example_foo \<in> set (preorder example_views_tree)"
    by (simp add: example_views_tree_def example_foo_def example_bar_def example_baz_def)
  have h2: "is_class example_foo"
    by (simp add: example_foo_def is_class_def)
  have h3: "example_bar \<in> set (descendants example_foo)"
    by (simp add: example_foo_def example_bar_def descendants_def)
  have h4: "is_function_like example_bar"
    by (simp add: example_bar_def is_function_like_def)
  show ?thesis
    using method_listed_twice [OF h0 h1 h2 h3 h4, of "Some example_views_source"] h0 h1 h2 h3 h4
    by blast
qed

section \<open>What the records of a file depend on\<close>

lemma parse_code_same_text:
  assumes r: "read_text env1 p = read_text env2 p" and a: "ast_parse env1 = ast_parse env2"
  shows "parse_code env1 p = parse_code env2 p"
  unfolding parse_code_def parse_code_try_def r a by (rule refl)

lemma files_loop_step_content:
  assumes "parse_code env1 p = parse_code env2 p"
  shows "(\<exists>err. files_loop env1 (p # ps) acc1 = Inl err \<and> files_loop env2 (p # ps) acc2 = Inl err) \<or>
         (\<exists>fd1 fd2. files_loop env1 (p # ps) acc1 = files_loop env1 ps (acc1 @ fd1) \<and>
                    files_loop env2 (p # ps) acc2 = files_loop env2 ps (acc2 @ fd2) \<and>
                    map record_content fd1 = map record_content fd2)"
proof (cases "passes_filter p")
  case False
  then have "files_loop env1 (p # ps) acc1 = files_loop env1 ps (acc1 @ [])"
    and "files_loop env2 (p # ps) acc2 = files_loop env2 ps (acc2 @ [])"
    by (simp_all add: files_loop_skips del: files_loop.simps)
  then show ?thesis by blast
next
  case True
  show ?thesis
  proof (cases "parse_code env2 p")
    case (Inl err)
    then have "files_loop env1 (p # ps) acc1 = Inl err" and "files_loop env2 (p # ps) acc2 = Inl err"
      using True assms by (simp_all add: files_loop_passes del: files_loop.simps)
    then show ?thesis by blast
  next
    case (Inr ts)
    obtain tree source where ts: "ts = (tree, source)"
      by (cases ts)
    show ?thesis
    proof (cases "extract_functions_classes tree source")
      case (Inl err)
      then have "files_loop env1 (p # ps) acc1 = Inl err"
        and "files_loop env2 (p # ps) acc2 = Inl err"
        using True assms \<open>parse_code env2 p = Inr ts\<close> ts
        by (simp_all add: files_loop_passes del: files_loop.simps)
      then show ?thesis by blast
    next
      case items: (Inr items)
      define fd where "fd = (\<lambda>env :: scan_env. \<lparr>file_name = path_name p, relative_path = path_str p,
                           absolute_path = resolve env p, file_items = items,
                           file_imports = find_imports_and_relations tree source p\<rparr>)"
      have "files_loop env1 (p # ps) acc1 = files_loop env1 ps (acc1 @ [fd env1])"
        using True assms \<open>parse_code env2 p = Inr ts\<close> ts items
        by (simp add: files_loop_passes fd_def del: files_loop.simps)
      moreover have "files_loop env2 (p # ps) acc2 = files_loop env2 ps (acc2 @ [fd env2])"
        using True \<open>parse_code env2 p = Inr ts\<close> ts items
        by (simp add: files_loop_passes fd_def del: files_loop.simps)
      moreover have "map record_content [fd env1] = map record_content [fd env2]"
        by (simp add: record_content_def fd_def)
      ultimately show ?thesis by blast
    qed
  qed
qed

lemma files_loop_content:
  assumes "\<forall>p \<in> set ps. read_text env1 p = read_text env2 p"
    and "ast_parse env1 = ast_parse env2"
    and "map record_content acc1 = map record_content acc2"
  shows "map_sum id (map record_content) (files_loop env1 ps acc1) =
         map_sum id (map record_content) (files_loop env2 ps acc2)"
  using assms(1,3)
proof (induction ps arbitrary: acc1 acc2)
  case Nil
  then show ?case by simp
next
  case (Cons p ps)
  have rest: "\<forall>q \<in> set ps. read_text env1 q = read_text env2 q"
    using Cons.prems(1) by simp
  have "read_text env1 p = read_text env2 p"
    using Cons.prems(1) by simp
  then have "parse_code env1 p = parse_code env2 p"
    using assms(2) by (rule parse_code_same_text)
  then consider (raise) err where "files_loop env1 (p # ps) acc1 = Inl err"
      and "files_loop env2 (p # ps) acc2 = Inl err"
    | (go) fd1 fd2 where "files_loop env1 (p # ps) acc1 = files_loop env1 ps (acc1 @ fd1)"
      and "files_loop env2 (p # ps) acc2 = files_loop env2 ps (acc2 @ fd2)"
      and "map record_content fd1 = map record_content fd2"
    using files_loop_step_content [of env1 p env2 ps acc1 acc2] by blast
  then show ?case
  proof cases
    case raise
    then show ?thesis by (simp only: map_sum.simps id_apply)
  next
    case go
    have "map record_content (acc1 @ fd1) = map record_content (acc2 @ fd2)"
      using Cons.prems(2) go(3) by simp
    then have "map_sum id (map record_content) (files_loop env1 ps (acc1 @ fd1)) =
        map_sum id (map record_content) (files_loop env2 ps (acc2 @ fd2))"
      by (rule Cons.IH [OF rest])
    then show ?thesis
      by (simp only: go(1,2))
  qed
qed

lemma parse_code_clock: "parse_code (env\<lparr>now_isoformat := t\<rparr>) p = parse_code env p"
  by (simp add: parse_code_def parse_code_try_def cong: sum.case_cong)

lemma files_loop_clock: "files_loop (env\<lparr>now_isoformat := t\<rparr>) ps acc = files_loop env ps acc"
proof (induction ps arbitrary: acc)
  case Nil
  show ?case by simp
next
  case (Cons p ps)
  show ?case
  proof (cases "passes_filter p")
    case False
    then show ?thesis
      using Cons.IH by (simp add: files_loop_skips del: files_loop.simps)
  next
    case True
    then show ?thesis
      using Cons.IH
      by (simp add: files_loop_passes parse_code_clock del: files_loop.simps
            split: sum.splits prod.splits)
  qed
qed

lemma apps_loop_clock: "apps_loop (env\<lparr>now_isoformat := t\<rparr>) aps acc = apps_loop env aps acc"
  by (induction aps arbitrary: acc) (simp_all add: files_loop_clock split: sum.splits)

section \<open>Determinism of the scan\<close>

text \<open>
  Claim C9. The declarations and imports of the file records depend on nothing but the
  text of the files: two runs that read the same text for every file (with the same
  parser) give the same declarations and imports for every file, or stop with the same
  exception, whatever the clock and the other surroundings of the two runs are. And the
  clock reaches the output only in the top-level \<open>generated_at\<close>: a run at another time
  returns the same \<open>apps\<close>.
\<close>

theorem scan_deterministic:
  assumes "\<forall>p \<in> set py_files. read_text env1 p = read_text env2 p"
    and "ast_parse env1 = ast_parse env2"
  shows "map_sum id (map record_content) (files_loop env1 py_files []) =
           map_sum id (map record_content) (files_loop env2 py_files []) \<and>
         map_sum id (\<lambda>r. map_option apps (returned r))
           (generate_project_structure_json (env1\<lparr>now_isoformat := t\<rparr>) app_paths output_file) =
           map_sum id (\<lambda>r. map_option apps (returned r))
             (generate_project_structure_json env1 app_paths output_file)"
proof
  show "map_sum id (map record_content) (files_loop env1 py_files []) =
      map_sum id (map record_content) (files_loop env2 py_files [])"
    using assms by (intro files_loop_content) simp_all
next
  show "map_sum id (\<lambda>r. map_option apps (returned r))
      (generate_project_structure_json (env1\<lparr>now_isoformat := t\<rparr>) app_paths output_file) =
      map_sum id (\<lambda>r. map_option apps (returned r))
        (generate_project_structure_json env1 app_paths output_file)"
    by (simp add: generate_project_structure_json_def apps_loop_clock Let_def
          split: sum.splits option.splits)
qed

theorem scan_deterministic_witness:
  "map_sum id (map record_content) (files_loop example_env [[''shop'', ''views.py'']] []) =
   map_sum id (map record_content)
     (files_loop
        (example_env\<lparr>now_isoformat := ''2031-01-01T00:00:00'',
                      resolve := (\<lambda>p. ''/home/ci/'' @ path_str p)\<rparr>)
        [[''shop'', ''views.py'']] [])"
proof -
  let ?env2 = "example_env\<lparr>now_isoformat := ''2031-01-01T00:00:00'',
                            resolve := (\<lambda>p. ''/home/ci/'' @ path_str p)\<rparr>"
  have h1: "\<forall>p \<in> set [[''shop'', ''views.py'']]. read_text example_env p = read_text ?env2 p"
    by simp
  have h2: "ast_parse example_env = ast_parse ?env2"
    by simp
  show ?thesis
    using scan_deterministic [OF h1 h2] by (rule conjunct1)
qed

end
